theory Spec2Isabelle
  imports Complex_Main "HOL-Library.Sublist"
begin

section \<open>Parsed JSON documents and Python's subscript operator\<close>

text \<open>
  A Python string is the list of its code points. \<open>py\<close> gives the string of an
  ASCII literal of the source. JSON escapes let a parsed document hold any code
  point in a string, also a surrogate (\<^verbatim>\<open>"\ud800"\<close>), which UTF-8 cannot encode.
\<close>

type_synonym pystr = "nat list"

definition py :: "string \<Rightarrow> pystr" where
  "py literal = map of_char literal"

definition surrogate :: "nat \<Rightarrow> bool" where
  "surrogate c = (55296 \<le> c \<and> c \<le> 57343)"

text \<open>
  The extractors of \<^verbatim>\<open>pytube/contrib/channel.py\<close> work on the value that
  \<^verbatim>\<open>json.loads\<close> returns: a dict with string keys, a list, a string, an int, a
  float, a bool or \<^verbatim>\<open>None\<close>. A dict is kept as an association list in iteration
  order, one pair per key. A float is kept as the text that \<^verbatim>\<open>repr\<close> gives for it,
  which tells any two floats apart (\<^verbatim>\<open>0.0\<close> and \<^verbatim>\<open>-0.0\<close>, \<^verbatim>\<open>inf\<close>, \<^verbatim>\<open>-inf\<close> and
  \<^verbatim>\<open>nan\<close>). \<open>JNull\<close> is Python's \<^verbatim>\<open>None\<close>. The model starts from the parsed
  document: a text that is not JSON makes \<^verbatim>\<open>json.loads\<close> raise before any line
  modelled here runs.
\<close>

datatype json =
    JNull
  | JBool bool
  | JInt int
  | JFloat pystr
  | JStr pystr
  | JArr "json list"
  | JObj "(pystr \<times> json) list"

text \<open>
  The exceptions that the modelled lines can raise. \<open>TransportError\<close> is the failure of
  \<^verbatim>\<open>request.post\<close>, which the walker does not catch. What the operating system or
  the memory refuses is outside the model.
\<close>

datatype py_error =
    KeyError | IndexError | TypeError | AttributeError | RecursionError | UnicodeEncodeError
  | TransportError

text \<open>Python's truth value of a parsed JSON value (\<^verbatim>\<open>if continuation:\<close>).\<close>

fun truthy :: "json \<Rightarrow> bool" where
  "truthy JNull = False"
| "truthy (JBool b) = b"
| "truthy (JInt i) = (i \<noteq> 0)"
| "truthy (JFloat r) = (r \<noteq> py ''0.0'' \<and> r \<noteq> py ''-0.0'')"
| "truthy (JStr s) = (s \<noteq> [])"
| "truthy (JArr xs) = (xs \<noteq> [])"
| "truthy (JObj kvs) = (kvs \<noteq> [])"

text \<open>
  A sequence index as Python resolves it: a negative index counts from the end, and an
  index outside the sequence raises \<^verbatim>\<open>IndexError\<close>.
\<close>

definition seq_index :: "'a list \<Rightarrow> int \<Rightarrow> py_error + 'a" where
  "seq_index xs i =
     (if 0 \<le> i \<and> i < int (length xs) then Inr (xs ! nat i)
      else if i < 0 \<and> - int (length xs) \<le> i then Inr (xs ! nat (int (length xs) + i))
      else Inl IndexError)"

text \<open>
  \<^verbatim>\<open>v[k]\<close> with a string literal \<open>k\<close> of the source: a dict looks the key up or raises
  \<^verbatim>\<open>KeyError\<close>; every other value raises \<^verbatim>\<open>TypeError\<close> (a list or a string wants an
  integer, the rest is not subscriptable).
\<close>

fun getitem_str :: "json \<Rightarrow> string \<Rightarrow> py_error + json" where
  "getitem_str (JObj kvs) k = (case map_of kvs (py k) of None \<Rightarrow> Inl KeyError | Some v \<Rightarrow> Inr v)"
| "getitem_str v k = Inl TypeError"

text \<open>
  \<^verbatim>\<open>v[i]\<close> with an integer \<open>i\<close>: a dict of a parsed document has string keys only,
  so the lookup raises \<^verbatim>\<open>KeyError\<close>; a list and a string index as sequences (a string
  gives the one-character string); every other value raises \<^verbatim>\<open>TypeError\<close>.
\<close>

fun getitem_int :: "json \<Rightarrow> int \<Rightarrow> py_error + json" where
  "getitem_int (JObj kvs) i = Inl KeyError"
| "getitem_int (JArr xs) i = seq_index xs i"
| "getitem_int (JStr s) i =
     (case seq_index s i of Inl e \<Rightarrow> Inl e | Inr c \<Rightarrow> Inr (JStr [c]))"
| "getitem_int v i = Inl TypeError"

datatype subscript = K string | I int

fun getitem :: "json \<Rightarrow> subscript \<Rightarrow> py_error + json" where
  "getitem v (K k) = getitem_str v k"
| "getitem v (I i) = getitem_int v i"

text \<open>
  A chain of subscripts \<^verbatim>\<open>v[a][b][c]\<close>, evaluated left to right; the first subscript
  that raises ends the chain with its exception.
\<close>

fun lookup :: "json \<Rightarrow> subscript list \<Rightarrow> py_error + json" where
  "lookup v [] = Inr v"
| "lookup v (s # ss) = (case getitem v s of Inl e \<Rightarrow> Inl e | Inr w \<Rightarrow> lookup w ss)"

section \<open>The collaborators\<close>

text \<open>
  What the modelled methods call and the sources do not hold is a parameter of the
  model: the text that an f-string produces for a value that is neither a string nor
  a float (\<open>format_value\<close>), the nesting depth up to which \<^verbatim>\<open>json.dumps\<close> returns
  under the interpreter's recursion limit (\<open>dump_depth\<close>),
  \<^verbatim>\<open>Playlist._build_continuation_url\<close> and \<^verbatim>\<open>Playlist._video_url\<close>. A
  continuation request is the triple of target, headers and body that
  \<^verbatim>\<open>_build_continuation_url\<close> returns.
\<close>

record request =
  load_more_url :: pystr
  headers :: "(pystr \<times> pystr) list"
  data :: json

record collaborators =
  format_value :: "json \<Rightarrow> pystr"
  dump_depth :: nat
  build_continuation_url :: "json \<Rightarrow> request"
  video_url :: "pystr \<Rightarrow> pystr"

text \<open>
  \<^verbatim>\<open>try: body except (E1, E2): handler\<close>: the handler runs when the body raises one
  of the listed exceptions; any other exception leaves the statement.
\<close>

definition try_except ::
  "(py_error + 'a) \<Rightarrow> (py_error \<Rightarrow> bool) \<Rightarrow> (py_error + 'a) \<Rightarrow> py_error + 'a" where
  "try_except body listed handler =
     (case body of Inr v \<Rightarrow> Inr v | Inl e \<Rightarrow> if listed e then handler else Inl e)"

section \<open>The shape resolver (lines 160-183 and 324-344)\<close>

definition initial_shape :: "int \<Rightarrow> subscript list" where
  "initial_shape tab =
     [K ''contents'', K ''twoColumnBrowseResultsRenderer'', K ''tabs'', I tab,
      K ''tabRenderer'', K ''content'', K ''richGridRenderer'', K ''contents'']"

definition legacy_shape :: "subscript list" where
  "legacy_shape =
     [I 1, K ''response'', K ''onResponseReceivedActions'', I 0,
      K ''appendContinuationItemsAction'', K ''continuationItems'']"

definition current_shape :: "subscript list" where
  "current_shape =
     [K ''onResponseReceivedActions'', I 0,
      K ''appendContinuationItemsAction'', K ''continuationItems'']"

definition shape_errors :: "py_error \<Rightarrow> bool" where
  "shape_errors e = (e = KeyError \<or> e = IndexError \<or> e = TypeError)"

text \<open>
  The three nested \<^verbatim>\<open>try\<close> statements. \<open>tab\<close> is the tab index of the initial-page
  shape: 1 in \<^verbatim>\<open>_extract_videos\<close>, 2 in \<^verbatim>\<open>_extract_shorts\<close>. \<open>Inr None\<close> is the
  innermost handler, which leaves the extractor with \<^verbatim>\<open>return [], None\<close>.
\<close>

definition found :: "py_error + json \<Rightarrow> py_error + json option" where
  "found r = (case r of Inl e \<Rightarrow> Inl e | Inr v \<Rightarrow> Inr (Some v))"

definition resolve_entries :: "int \<Rightarrow> json \<Rightarrow> py_error + json option" where
  "resolve_entries tab initial_data =
     try_except (found (lookup initial_data (initial_shape tab))) shape_errors
       (try_except (found (lookup initial_data legacy_shape)) shape_errors
          (try_except (found (lookup initial_data current_shape)) shape_errors
             (Inr None)))"

section \<open>The continuation extractor (lines 185-192 and 346-353)\<close>

definition continuation_path :: "subscript list" where
  "continuation_path =
     [I (- 1), K ''continuationItemRenderer'', K ''continuationEndpoint'',
      K ''continuationCommand'', K ''token'']"

definition continuation_errors :: "py_error \<Rightarrow> bool" where
  "continuation_errors e = (e = KeyError \<or> e = IndexError)"

text \<open>
  \<^verbatim>\<open>videos[:-1]\<close>: a list and a string lose their last element; a dict raises
  \<^verbatim>\<open>KeyError\<close> (a slice is a hashable key from Python 3.12 on, which the f-string of
  line 363 needs); every other value raises \<^verbatim>\<open>TypeError\<close>.
\<close>

fun all_but_last :: "json \<Rightarrow> py_error + json" where
  "all_but_last (JArr xs) = Inr (JArr (butlast xs))"
| "all_but_last (JStr s) = Inr (JStr (butlast s))"
| "all_but_last (JObj kvs) = Inl KeyError"
| "all_but_last v = Inl TypeError"

text \<open>
  The result is the pair of \<^verbatim>\<open>videos\<close> and \<^verbatim>\<open>continuation\<close> after the statement;
  \<open>JNull\<close> is \<^verbatim>\<open>continuation = None\<close>.
\<close>

definition split_continuation :: "json \<Rightarrow> py_error + (json \<times> json)" where
  "split_continuation videos =
     try_except
       (case lookup videos continuation_path of
          Inl e \<Rightarrow> Inl e
        | Inr token \<Rightarrow>
            (case all_but_last videos of Inl e \<Rightarrow> Inl e | Inr rest \<Rightarrow> Inr (rest, token)))
       continuation_errors
       (Inr (videos, JNull))"

section \<open>The item mappers (lines 199-205 and 360-367)\<close>

text \<open>
  What \<^verbatim>\<open>map(lambda x: ..., videos)\<close> iterates over: the elements of a list, the keys
  of a dict, the characters of a string; any other value is not iterable.
\<close>

fun py_iter :: "json \<Rightarrow> py_error + json list" where
  "py_iter (JArr xs) = Inr xs"
| "py_iter (JObj kvs) = Inr (map (\<lambda>kv. JStr (fst kv)) kvs)"
| "py_iter (JStr s) = Inr (map (\<lambda>c. JStr [c]) s)"
| "py_iter v = Inl TypeError"

text \<open>
  \<^verbatim>\<open>list(map(f, xs))\<close> where \<open>f\<close> may raise: the first element on which \<open>f\<close> raises
  ends the call with that exception.
\<close>

fun map_raise :: "('a \<Rightarrow> py_error + 'b) \<Rightarrow> 'a list \<Rightarrow> py_error + 'b list" where
  "map_raise f [] = Inr []"
| "map_raise f (x # xs) =
     (case f x of
        Inl e \<Rightarrow> Inl e
      | Inr y \<Rightarrow> (case map_raise f xs of Inl e \<Rightarrow> Inl e | Inr ys \<Rightarrow> Inr (y # ys)))"

text \<open>
  The text of \<^verbatim>\<open>f"{v}"\<close>: a string is itself, a float is its \<^verbatim>\<open>repr\<close>.
\<close>

definition py_format :: "(json \<Rightarrow> pystr) \<Rightarrow> json \<Rightarrow> pystr" where
  "py_format fmt v = (case v of JStr s \<Rightarrow> s | JFloat r \<Rightarrow> r | _ \<Rightarrow> fmt v)"

definition video_ref :: "(json \<Rightarrow> pystr) \<Rightarrow> json \<Rightarrow> py_error + pystr" where
  "video_ref fmt x =
     (case lookup x [K ''richItemRenderer'', K ''content'', K ''videoRenderer'', K ''videoId''] of
        Inl e \<Rightarrow> Inl e
      | Inr v \<Rightarrow> Inr (py ''/watch?v='' @ py_format fmt v))"

text \<open>\<^verbatim>\<open>s.split(sep)\<close> for a one-character separator: never the empty list.\<close>

fun split :: "'a \<Rightarrow> 'a list \<Rightarrow> 'a list list" where
  "split sep [] = [[]]"
| "split sep (c # cs) =
     (if c = sep then [] # split sep cs
      else (case split sep cs of [] \<Rightarrow> [[c]] | w # ws \<Rightarrow> (c # w) # ws))"

text \<open>
  The shorts mapper calls \<^verbatim>\<open>.split("/")\<close> on the value under \<^verbatim>\<open>"url"\<close>: only a
  string has that method, any other value raises \<^verbatim>\<open>AttributeError\<close>.
\<close>

definition short_ref :: "json \<Rightarrow> py_error + pystr" where
  "short_ref x =
     (case lookup x [K ''richItemRenderer'', K ''content'', K ''shortsLockupViewModel'',
                     K ''onTap'', K ''innertubeCommand'', K ''commandMetadata'',
                     K ''webCommandMetadata'', K ''url''] of
        Inl e \<Rightarrow> Inl e
      | Inr (JStr u) \<Rightarrow>
          (case seq_index (split (of_char CHR ''/'') u) (- 1) of
             Inl e \<Rightarrow> Inl e
           | Inr segment \<Rightarrow> Inr (py ''/shorts/'' @ segment))
      | Inr _ \<Rightarrow> Inl AttributeError)"

section \<open>The deduplicator\<close>

text \<open>
  Modelled from the spec: \<^verbatim>\<open>uniqueify\<close> is imported from \<^verbatim>\<open>pytube.helpers\<close>, which
  is not among the sources. The spec (4.4 and the data model) describes it as a stable,
  order-preserving pass over the list with a seen-set, in which the first occurrence of
  a reference wins.
\<close>

fun uniqueify_seen :: "'a set \<Rightarrow> 'a list \<Rightarrow> 'a list" where
  "uniqueify_seen seen [] = []"
| "uniqueify_seen seen (x # xs) =
     (if x \<in> seen then uniqueify_seen seen xs
      else x # uniqueify_seen (insert x seen) xs)"

definition uniqueify :: "'a list \<Rightarrow> 'a list" where
  "uniqueify duped_list = uniqueify_seen {} duped_list"

text \<open>
  The positions of a list at which an element occurs for the first time, and the
  elements found there: the distinct elements in order of first occurrence.
\<close>

definition first_occurrences :: "'a list \<Rightarrow> 'a list" where
  "first_occurrences L = map (\<lambda>i. L ! i) (filter (\<lambda>i. L ! i \<notin> set (take i L)) [0..<length L])"

section \<open>The extractors\<close>

text \<open>
  Lines 185-209 and 346-371 are the same text but for the item mapper: the
  continuation statement, then the mapper over what is left of \<^verbatim>\<open>videos\<close>, then
  \<^verbatim>\<open>uniqueify\<close>. \<open>item_ref\<close> is the lambda of the \<^verbatim>\<open>map\<close>.
\<close>

definition references_and_token ::
  "(json \<Rightarrow> py_error + pystr) \<Rightarrow> json \<Rightarrow> py_error + (pystr list \<times> json)" where
  "references_and_token item_ref videos0 =
     (case split_continuation videos0 of
        Inl e \<Rightarrow> Inl e
      | Inr (videos, continuation) \<Rightarrow>
          (case py_iter videos of
             Inl e \<Rightarrow> Inl e
           | Inr entries \<Rightarrow>
               (case map_raise item_ref entries of
                  Inl e \<Rightarrow> Inl e
                | Inr refs \<Rightarrow> Inr (uniqueify refs, continuation))))"

definition extract_videos :: "collaborators \<Rightarrow> json \<Rightarrow> py_error + (pystr list \<times> json)" where
  "extract_videos C initial_data =
     (case resolve_entries 1 initial_data of
        Inl e \<Rightarrow> Inl e
      | Inr None \<Rightarrow> Inr ([], JNull)
      | Inr (Some videos) \<Rightarrow> references_and_token (video_ref (format_value C)) videos)"

text \<open>
  \<^verbatim>\<open>_extract_shorts\<close> from line 322 on, which is the part that computes the returned
  pair once the debug dump of lines 316-320 is written.
\<close>

definition shorts_of_page :: "json \<Rightarrow> py_error + (pystr list \<times> json)" where
  "shorts_of_page initial_data =
     (case resolve_entries 2 initial_data of
        Inl e \<Rightarrow> Inl e
      | Inr None \<Rightarrow> Inr ([], JNull)
      | Inr (Some videos) \<Rightarrow> references_and_token short_ref videos)"

section \<open>The debug dump of the shorts extractor (lines 316-320)\<close>

text \<open>
  \<^verbatim>\<open>dumps(initial_data, ensure_ascii=False, indent=4)\<close> of the standard library on a
  parsed document. An int is printed in decimal, a float as its \<^verbatim>\<open>repr\<close> but for
  \<^verbatim>\<open>NaN\<close>, \<^verbatim>\<open>Infinity\<close> and \<^verbatim>\<open>-Infinity\<close>. A string goes between quotes with the
  quote, the backslash and the control characters escaped; every other code point is
  copied as it is, since \<^verbatim>\<open>ensure_ascii\<close> is off. A container that is not empty
  puts every item on a line of its own, four spaces deeper than the container.
\<close>

fun digits :: "nat \<Rightarrow> pystr" where
  "digits n = (if n < 10 then [48 + n] else digits (n div 10) @ [48 + n mod 10])"

declare digits.simps [simp del]

definition int_repr :: "int \<Rightarrow> pystr" where
  "int_repr i = (if i < 0 then of_char CHR ''-'' # digits (nat (- i)) else digits (nat i))"

definition float_text :: "pystr \<Rightarrow> pystr" where
  "float_text r =
     (if r = py ''nan'' then py ''NaN''
      else if r = py ''inf'' then py ''Infinity''
      else if r = py ''-inf'' then py ''-Infinity''
      else r)"

definition hex_digit :: "nat \<Rightarrow> nat" where
  "hex_digit d = (if d < 10 then 48 + d else 87 + d)"

text \<open>
  The replacement of one code point in \<^verbatim>\<open>encode_basestring\<close>; 92 is the backslash
  and 34 the quote.
\<close>

definition escape :: "nat \<Rightarrow> pystr" where
  "escape c =
     (if c = 92 then [92, 92]
      else if c = 34 then [92, 34]
      else if c = 8 then 92 # py ''b''
      else if c = 12 then 92 # py ''f''
      else if c = 10 then 92 # py ''n''
      else if c = 13 then 92 # py ''r''
      else if c = 9 then 92 # py ''t''
      else if c < 32 then 92 # py ''u00'' @ [hex_digit (c div 16), hex_digit (c mod 16)]
      else [c])"

definition encode_basestring :: "pystr \<Rightarrow> pystr" where
  "encode_basestring s = 34 # concat (map escape s) @ [34]"

fun indentation :: "nat \<Rightarrow> pystr" where
  "indentation 0 = []"
| "indentation (Suc level) = py ''    '' @ indentation level"

definition newline_indent :: "nat \<Rightarrow> pystr" where
  "newline_indent level = 10 # indentation level"

fun join :: "'a list \<Rightarrow> 'a list list \<Rightarrow> 'a list" where
  "join sep [] = []"
| "join sep [x] = x"
| "join sep (x # y # ys) = x @ sep @ join sep (y # ys)"

fun iterencode :: "json \<Rightarrow> nat \<Rightarrow> pystr" where
  "iterencode JNull level = py ''null''"
| "iterencode (JBool b) level = (if b then py ''true'' else py ''false'')"
| "iterencode (JInt i) level = int_repr i"
| "iterencode (JFloat r) level = float_text r"
| "iterencode (JStr s) level = encode_basestring s"
| "iterencode (JArr xs) level =
     (if xs = [] then py ''[]''
      else py ''['' @ newline_indent (Suc level) @
           join (py '','' @ newline_indent (Suc level))
             (map (\<lambda>x. iterencode x (Suc level)) xs) @
           newline_indent level @ py '']'')"
| "iterencode (JObj kvs) level =
     (if kvs = [] then py ''{}''
      else py ''{'' @ newline_indent (Suc level) @
           join (py '','' @ newline_indent (Suc level))
             (map (\<lambda>kv. encode_basestring (fst kv) @ py '': '' @ iterencode (snd kv) (Suc level))
                kvs) @
           newline_indent level @ py ''}'')"

text \<open>
  With an indent the encoder is the recursive Python one: it descends one call per
  nested container and raises \<^verbatim>\<open>RecursionError\<close> on a document nested deeper than
  the interpreter lets it go.
\<close>

fun depth :: "json \<Rightarrow> nat" where
  "depth (JArr xs) = Suc (foldr max (map depth xs) 0)"
| "depth (JObj kvs) = Suc (foldr max (map (\<lambda>kv. depth (snd kv)) kvs) 0)"
| "depth v = 0"

definition dumps :: "collaborators \<Rightarrow> json \<Rightarrow> py_error + pystr" where
  "dumps C initial_data =
     (if dump_depth C < depth initial_data then Inl RecursionError
      else Inr (iterencode initial_data 0))"

text \<open>
  The file system is a map from paths to the text of the file.
  \<^verbatim>\<open>open(path, 'w', encoding='utf-8')\<close> leaves the file at the path empty;
  \<^verbatim>\<open>f.write(text)\<close> encodes the whole text before it writes any of it, and raises
  \<^verbatim>\<open>UnicodeEncodeError\<close> when the text holds a surrogate.
\<close>

type_synonym files = "pystr \<rightharpoonup> pystr"

definition write_file :: "files \<Rightarrow> pystr \<Rightarrow> pystr \<Rightarrow> files" where
  "write_file fs path text = fs(path \<mapsto> text)"

definition f_write :: "files \<Rightarrow> pystr \<Rightarrow> pystr \<Rightarrow> py_error + files" where
  "f_write fs path text =
     (if \<exists>c\<in>set text. surrogate c then Inl UnicodeEncodeError
      else Inr (write_file fs path text))"

text \<open>
  \<^verbatim>\<open>_extract_shorts\<close> takes the files before the call and returns the files after
  it with what it returns or raises. An exception inside the \<^verbatim>\<open>with\<close> block closes
  the file, which is empty then, and leaves the method before line 322.
\<close>

definition extract_shorts ::
  "collaborators \<Rightarrow> files \<Rightarrow> json \<Rightarrow> files \<times> (py_error + (pystr list \<times> json))" where
  "extract_shorts C fs initial_data =
     (let f = write_file fs (py ''shorts_initial_data.json'') []
      in case dumps C initial_data of
           Inl e \<Rightarrow> (f, Inl e)
         | Inr json_data \<Rightarrow>
             (case f_write f (py ''shorts_initial_data.json'') json_data of
                Inl e \<Rightarrow> (f, Inl e)
              | Inr fs' \<Rightarrow> (fs', shorts_of_page initial_data)))"

text \<open>
  What lines 316-320 raise for a document, if anything; the files play no part in it.
\<close>

definition dump_error :: "collaborators \<Rightarrow> json \<Rightarrow> py_error option" where
  "dump_error C initial_data =
     (case dumps C initial_data of
        Inl e \<Rightarrow> Some e
      | Inr json_data \<Rightarrow>
          (if \<exists>c\<in>set json_data. surrogate c then Some UnicodeEncodeError else None))"

text \<open>
  Whether some text of a document holds a surrogate: a string, a key, or the text kept
  for a float (the \<^verbatim>\<open>repr\<close> of a float is ASCII, so a float of Python never does).
\<close>

fun holds_surrogate :: "json \<Rightarrow> bool" where
  "holds_surrogate (JStr s) = (\<exists>c\<in>set s. surrogate c)"
| "holds_surrogate (JFloat r) = (\<exists>c\<in>set r. surrogate c)"
| "holds_surrogate (JArr xs) = (\<exists>x\<in>set xs. holds_surrogate x)"
| "holds_surrogate (JObj kvs) =
     (\<exists>kv\<in>set kvs. (\<exists>c\<in>set (fst kv). surrogate c) \<or> holds_surrogate (snd kv))"
| "holds_surrogate v = False"

section \<open>The pagination walker of the shorts listing (lines 227-291)\<close>

text \<open>
  \<^verbatim>\<open>xs.index(y)\<close>: the position of the first element equal to \<open>y\<close>; \<open>None\<close> is the
  \<^verbatim>\<open>ValueError\<close> that both call sites catch.
\<close>

fun index_of :: "'a list \<Rightarrow> 'a \<Rightarrow> nat option" where
  "index_of [] y = None"
| "index_of (x # xs) y = (if x = y then Some 0 else map_option Suc (index_of xs y))"

text \<open>
  \<^verbatim>\<open>if until_watch_id: try: trim_index = videos_urls.index(prefix + until_watch_id)\<close>.
  \<^verbatim>\<open>None\<close> and the empty string are false. The prefix is \<^verbatim>\<open>"/shorts/"\<close> at line
  244 and \<^verbatim>\<open>"/shorts/="\<close> at line 270.
\<close>

definition trim_index :: "pystr option \<Rightarrow> pystr \<Rightarrow> pystr list \<Rightarrow> nat option" where
  "trim_index until_watch_id pre videos_urls =
     (case until_watch_id of
        None \<Rightarrow> None
      | Some w \<Rightarrow> if w = [] then None else index_of videos_urls (pre @ w))"

text \<open>
  A run of the generator to its end: the batches it yielded in order, the requests it
  posted in order, the files it left, and whether it returned or raised.
\<close>

datatype outcome = Finished | Raised py_error

record walk =
  emitted :: "pystr list list"
  posted :: "request list"
  files_after :: files
  outcome :: outcome

definition stop :: "files \<Rightarrow> outcome \<Rightarrow> walk" where
  "stop fs out = \<lparr>emitted = [], posted = [], files_after = fs, outcome = out\<rparr>"

definition yield :: "pystr list \<Rightarrow> walk \<Rightarrow> walk" where
  "yield batch w = w\<lparr>emitted := batch # emitted w\<rparr>"

definition post :: "request \<Rightarrow> walk \<Rightarrow> walk" where
  "post r w = w\<lparr>posted := r # posted w\<rparr>"

text \<open>
  Lines 255-258 and 277-282: the next request, or \<^verbatim>\<open>None, None, None\<close>.
\<close>

definition next_request :: "collaborators \<Rightarrow> json \<Rightarrow> request option" where
  "next_request C continuation =
     (if truthy continuation then Some (build_continuation_url C continuation) else None)"

text \<open>The loop condition \<^verbatim>\<open>load_more_url and headers and data\<close>.\<close>

definition request_truthy :: "request \<Rightarrow> bool" where
  "request_truthy r = (load_more_url r \<noteq> [] \<and> headers r \<noteq> [] \<and> truthy (data r))"

text \<open>
  The \<^verbatim>\<open>while\<close> loop. The transport is a script: the parsed responses that
  \<^verbatim>\<open>request.post\<close> returns to the successive calls. A call past the end of the script
  is a transport failure, which the walker does not catch. The loop makes one call per
  round, so it is a recursion over the script.
\<close>

fun load_more :: "collaborators \<Rightarrow> pystr option \<Rightarrow> request option \<Rightarrow> json list \<Rightarrow> files \<Rightarrow> walk" where
  "load_more C until_watch_id None responses fs = stop fs Finished"
| "load_more C until_watch_id (Some r) [] fs =
     (if request_truthy r then post r (stop fs (Raised TransportError)) else stop fs Finished)"
| "load_more C until_watch_id (Some r) (req # later) fs =
     (if request_truthy r then
        post r
          (case snd (extract_shorts C fs req) of
             Inl e \<Rightarrow> stop (fst (extract_shorts C fs req)) (Raised e)
           | Inr (videos_urls, continuation) \<Rightarrow>
               (case trim_index until_watch_id (py ''/shorts/='') videos_urls of
                  Some i \<Rightarrow> yield (take i videos_urls) (stop (fst (extract_shorts C fs req)) Finished)
                | None \<Rightarrow>
                    yield videos_urls
                      (load_more C until_watch_id (next_request C continuation) later
                         (fst (extract_shorts C fs req)))))
      else stop fs Finished)"

text \<open>
  \<^verbatim>\<open>_paginate_shorts\<close>. \<open>initial\<close> is \<^verbatim>\<open>extract.initial_data(self.shorts_html)\<close>,
  which line 240 serialises and line 315 parses again.
\<close>

definition paginate_shorts ::
  "collaborators \<Rightarrow> pystr option \<Rightarrow> json \<Rightarrow> json list \<Rightarrow> files \<Rightarrow> walk" where
  "paginate_shorts C until_watch_id initial responses fs =
     (case snd (extract_shorts C fs initial) of
        Inl e \<Rightarrow> stop (fst (extract_shorts C fs initial)) (Raised e)
      | Inr (videos_urls, continuation) \<Rightarrow>
          (case trim_index until_watch_id (py ''/shorts/'') videos_urls of
             Some i \<Rightarrow> yield (take i videos_urls) (stop (fst (extract_shorts C fs initial)) Finished)
           | None \<Rightarrow>
               yield videos_urls
                 (load_more C until_watch_id (next_request C continuation) responses
                    (fst (extract_shorts C fs initial)))))"

text \<open>
  \<^verbatim>\<open>shorts_url_generator\<close>, run to its end: every reference of every page in order,
  each passed through \<^verbatim>\<open>_video_url\<close>.
\<close>

definition shorts_url_generator :: "collaborators \<Rightarrow> json \<Rightarrow> json list \<Rightarrow> files \<Rightarrow> pystr list" where
  "shorts_url_generator C initial responses fs =
     map (video_url C) (concat (emitted (paginate_shorts C None initial responses fs)))"

section \<open>Pages of a walk\<close>

text \<open>
  What the walker takes from a page: the batch and the token that \<^verbatim>\<open>_extract_shorts\<close>
  returns for it (the empty batch and \<^verbatim>\<open>None\<close> where line 322 and what follows it
  raise).
\<close>

definition page_batch :: "json \<Rightarrow> pystr list" where
  "page_batch page = (case shorts_of_page page of Inl e \<Rightarrow> [] | Inr (refs, token) \<Rightarrow> refs)"

definition page_token :: "json \<Rightarrow> json" where
  "page_token page = (case shorts_of_page page of Inl e \<Rightarrow> JNull | Inr (refs, token) \<Rightarrow> token)"


text \<open>A batch of the shorts listing: no reference twice, every reference a shorts path.\<close>

definition short_batch :: "pystr list \<Rightarrow> bool" where
  "short_batch batch = (distinct batch \<and> (\<forall>r\<in>set batch. prefix (py ''/shorts/'') r))"

section \<open>The documents of the spec's scenarios\<close>

text \<open>
  An item entry of the shorts listing and of the videos listing, a continuation marker,
  a document of the initial-page shape (the shorts tab is the third) and a document of
  the current continuation shape.
\<close>

definition short_entry :: "string \<Rightarrow> json" where
  "short_entry ident =
     JObj [(py ''richItemRenderer'', JObj [(py ''content'', JObj [(py ''shortsLockupViewModel'',
       JObj [(py ''onTap'', JObj [(py ''innertubeCommand'', JObj [(py ''commandMetadata'',
         JObj [(py ''webCommandMetadata'',
           JObj [(py ''url'', JStr (py (''/shorts/'' @ ident)))])])])])])])])]"

definition video_entry :: "string \<Rightarrow> json" where
  "video_entry ident =
     JObj [(py ''richItemRenderer'', JObj [(py ''content'', JObj [(py ''videoRenderer'',
       JObj [(py ''videoId'', JStr (py ident))])])])]"

definition marker :: "string \<Rightarrow> json" where
  "marker token =
     JObj [(py ''continuationItemRenderer'', JObj [(py ''continuationEndpoint'',
       JObj [(py ''continuationCommand'', JObj [(py ''token'', JStr (py token))])])])]"

definition initial_page :: "json list \<Rightarrow> json" where
  "initial_page entries =
     JObj [(py ''contents'', JObj [(py ''twoColumnBrowseResultsRenderer'', JObj [(py ''tabs'',
       JArr [JObj [], JObj [],
             JObj [(py ''tabRenderer'', JObj [(py ''content'',
               JObj [(py ''richGridRenderer'', JObj [(py ''contents'', JArr entries)])])])]])])])]"

definition continuation_page :: "json list \<Rightarrow> json" where
  "continuation_page entries =
     JObj [(py ''onResponseReceivedActions'',
       JArr [JObj [(py ''appendContinuationItemsAction'',
         JObj [(py ''continuationItems'', JArr entries)])]])]"

text \<open>
  Collaborators for the scenarios: a request builder that embeds the token in the body
  of a post to the browse endpoint, the channel-relative URL of a reference, and an
  encoder that goes a thousand containers deep. The text of \<open>format_value\<close> stands
  for what Python prints; no scenario reads it.
\<close>

definition scenario :: collaborators where
  "scenario =
     \<lparr>format_value = (\<lambda>v. py ''<value>''),
      dump_depth = 1000,
      build_continuation_url = (\<lambda>token.
        \<lparr>load_more_url = py ''https://www.youtube.com/youtubei/v1/browse'',
         headers = [(py ''Content-Type'', py ''application/json'')],
         data = JObj [(py ''continuation'', token)]\<rparr>),
      video_url = (\<lambda>watch_path. py ''https://www.youtube.com'' @ watch_path)\<rparr>"

text \<open>
  The end-to-end scenario of the spec on the shorts listing: ids a, b, c and the token
  T1, then ids c, d and no token.
\<close>

definition first_page :: json where
  "first_page =
     initial_page [short_entry ''a'', short_entry ''b'', short_entry ''c'', marker ''T1'']"

definition second_page :: json where
  "second_page = continuation_page [short_entry ''c'', short_entry ''d'']"

text \<open>A chain of three pages: a, b and T1; c, d, e and T2; f.\<close>

definition chain_page1 :: json where
  "chain_page1 = initial_page [short_entry ''a'', short_entry ''b'', marker ''T1'']"

definition chain_page2 :: json where
  "chain_page2 =
     continuation_page [short_entry ''c'', short_entry ''d'', short_entry ''e'', marker ''T2'']"

definition chain_page3 :: json where
  "chain_page3 = continuation_page [short_entry ''f'']"

text \<open>A document that \<^verbatim>\<open>json.loads\<close> returns for \<^verbatim>\<open>["\ud800"]\<close>.\<close>

definition surrogate_page :: json where
  "surrogate_page = JArr [JStr [55296]]"

text \<open>A continuation page that holds the reference c twice.\<close>

definition repeating_page :: json where
  "repeating_page = continuation_page [short_entry ''c'', short_entry ''d'', short_entry ''c'']"

text \<open>A text that \<^verbatim>\<open>f.write\<close> can encode: no code point of it is a surrogate.\<close>

definition plain :: "pystr \<Rightarrow> bool" where
  "plain text = (\<forall>c\<in>set text. \<not> surrogate c)"

section \<open>Properties of the debug dump\<close>

lemma plain_simps [simp]:
  "plain []"
  "plain (c # text) \<longleftrightarrow> \<not> surrogate c \<and> plain text"
  "plain (text @ text') \<longleftrightarrow> plain text \<and> plain text'"
  by (auto simp: plain_def)

lemma not_plain_iff: "(\<exists>c\<in>set text. surrogate c) \<longleftrightarrow> \<not> plain text"
  by (simp add: plain_def)

lemma small_not_surrogate: "c < 256 \<Longrightarrow> \<not> surrogate c"
  by (simp add: surrogate_def)

lemma of_char_less_256: "(of_char c :: nat) < 256"
proof -
  have "(of_char c :: nat) mod 256 = of_char c"
    by (rule of_char_mod_256)
  moreover have "(of_char c :: nat) mod 256 < 256"
    by simp
  ultimately show ?thesis by simp
qed

lemma plain_py [simp]: "plain (py literal)"
  using small_not_surrogate [OF of_char_less_256] by (auto simp: plain_def py_def)

lemma plain_digits [simp]: "plain (digits n)"
proof (induction n rule: digits.induct)
  case (1 n)
  show ?case
  proof (cases "n < 10")
    case True
    then show ?thesis
      by (subst digits.simps) (simp add: surrogate_def)
  next
    case False
    have "n mod 10 < 10" by simp
    then have "\<not> surrogate (48 + n mod 10)"
      by (simp add: surrogate_def)
    with False 1 show ?thesis
      by (subst digits.simps) simp
  qed
qed

lemma plain_int_repr [simp]: "plain (int_repr i)"
  by (simp add: int_repr_def small_not_surrogate of_char_less_256)

lemma plain_float_text [simp]: "plain (float_text r) \<longleftrightarrow> plain r"
  by (auto simp: float_text_def)

lemma hex_digit_small: "d < 16 \<Longrightarrow> hex_digit d < 256"
  by (simp add: hex_digit_def)

lemma plain_escape [simp]: "plain (escape c) \<longleftrightarrow> \<not> surrogate c"
proof (cases "c < 32")
  case True
  have "hex_digit (c mod 16) < 256"
    by (rule hex_digit_small) simp
  moreover from True have "hex_digit (c div 16) < 256"
    by (intro hex_digit_small) simp
  moreover from True have "\<not> surrogate c"
    by (simp add: surrogate_def)
  ultimately show ?thesis
    by (simp add: escape_def small_not_surrogate)
next
  case False
  then show ?thesis
    by (simp add: escape_def surrogate_def)
qed

lemma plain_concat_escape [simp]: "plain (concat (map escape s)) \<longleftrightarrow> plain s"
  by (induction s) simp_all

lemma plain_encode_basestring [simp]: "plain (encode_basestring s) \<longleftrightarrow> plain s"
  by (simp add: encode_basestring_def small_not_surrogate)

lemma plain_indentation [simp]: "plain (indentation level)"
  by (induction level) simp_all

lemma plain_newline_indent [simp]: "plain (newline_indent level)"
  by (simp add: newline_indent_def small_not_surrogate)

lemma plain_join: "plain sep \<Longrightarrow> plain (join sep xs) \<longleftrightarrow> (\<forall>x\<in>set xs. plain x)"
  by (induction sep xs rule: join.induct) auto

lemma plain_iterencode: "plain (iterencode v level) \<longleftrightarrow> \<not> holds_surrogate v"
proof (induction v level rule: iterencode.induct)
  case (6 xs level)
  show ?case
  proof (cases "xs = []")
    case True
    then show ?thesis by simp
  next
    case False
    with 6 show ?thesis
      by (simp add: plain_join)
  qed
next
  case (7 kvs level)
  show ?case
  proof (cases "kvs = []")
    case True
    then show ?thesis by simp
  next
    case False
    with 7 show ?thesis
      by (auto simp: plain_join not_plain_iff)
  qed
qed (simp_all add: not_plain_iff)

lemma dump_error_eq:
  "dump_error C doc =
     (if dump_depth C < depth doc then Some RecursionError
      else if holds_surrogate doc then Some UnicodeEncodeError
      else None)"
  using plain_iterencode [of doc 0]
  by (simp add: dump_error_def dumps_def not_plain_iff)

lemma snd_extract_shorts:
  "snd (extract_shorts C fs doc) =
     (case dump_error C doc of Some e \<Rightarrow> Inl e | None \<Rightarrow> shorts_of_page doc)"
  by (simp add: extract_shorts_def dump_error_def f_write_def Let_def split: sum.splits)

lemma fst_extract_shorts:
  "fst (extract_shorts C fs doc) =
     write_file fs (py ''shorts_initial_data.json'')
       (case dump_error C doc of Some e \<Rightarrow> [] | None \<Rightarrow> iterencode doc 0)"
  by (auto simp: extract_shorts_def dump_error_def dumps_def f_write_def write_file_def Let_def
      split: sum.splits)

section \<open>Properties of the deduplicator\<close>

lemma set_uniqueify_seen: "set (uniqueify_seen seen xs) = set xs - seen"
  by (induction xs arbitrary: seen) auto

lemma distinct_uniqueify_seen: "distinct (uniqueify_seen seen xs)"
  by (induction xs arbitrary: seen) (auto simp: set_uniqueify_seen)

lemma uniqueify_seen_distinct_id:
  "distinct xs \<Longrightarrow> set xs \<inter> seen = {} \<Longrightarrow> uniqueify_seen seen xs = xs"
  by (induction xs arbitrary: seen) auto

lemma distinct_uniqueify: "distinct (uniqueify xs)"
  by (simp add: uniqueify_def distinct_uniqueify_seen)

lemma set_uniqueify: "set (uniqueify xs) = set xs"
  by (simp add: uniqueify_def set_uniqueify_seen)

lemma uniqueify_snoc:
  "uniqueify_seen seen (xs @ [x]) =
     uniqueify_seen seen xs @ (if x \<in> seen \<union> set xs then [] else [x])"
  by (induction xs arbitrary: seen) auto

lemma first_occurrences_snoc:
  "first_occurrences (xs @ [x]) = first_occurrences xs @ (if x \<in> set xs then [] else [x])"
proof -
  let ?L = "xs @ [x]"
  have split: "[0..<length ?L] = [0..<length xs] @ [length xs]"
    by simp
  have a: "filter (\<lambda>i. ?L ! i \<notin> set (take i ?L)) [0..<length xs] =
      filter (\<lambda>i. xs ! i \<notin> set (take i xs)) [0..<length xs]"
    by (rule filter_cong) (auto simp: nth_append)
  have b: "map (\<lambda>i. ?L ! i) (filter (\<lambda>i. xs ! i \<notin> set (take i xs)) [0..<length xs]) =
      map (\<lambda>i. xs ! i) (filter (\<lambda>i. xs ! i \<notin> set (take i xs)) [0..<length xs])"
    by (rule map_cong [OF refl]) (auto simp: nth_append)
  have c: "map (\<lambda>i. ?L ! i) (filter (\<lambda>i. ?L ! i \<notin> set (take i ?L)) [length xs]) =
      (if x \<in> set xs then [] else [x])"
    by simp
  have "first_occurrences ?L =
      map (\<lambda>i. ?L ! i) (filter (\<lambda>i. ?L ! i \<notin> set (take i ?L)) [0..<length xs]) @
      map (\<lambda>i. ?L ! i) (filter (\<lambda>i. ?L ! i \<notin> set (take i ?L)) [length xs])"
    unfolding first_occurrences_def split by (simp only: filter_append map_append)
  also have "\<dots> = first_occurrences xs @ (if x \<in> set xs then [] else [x])"
    unfolding a b c first_occurrences_def ..
  finally show ?thesis .
qed

lemma uniqueify_first_occurrences: "uniqueify L = first_occurrences L"
proof (induction L rule: rev_induct)
  case Nil
  show ?case by (simp add: uniqueify_def first_occurrences_def)
next
  case (snoc x xs)
  then show ?case
    by (simp add: uniqueify_def uniqueify_snoc first_occurrences_snoc)
qed

text \<open>
  C8. The deduplicator returns, for every list \<open>L\<close>, the elements of \<open>L\<close> at the
  positions where an element occurs for the first time, in the order of \<open>L\<close>: no
  element twice, every element of \<open>L\<close> once. Applying it to its own output returns
  that output unchanged.
\<close>

theorem uniqueify_first_occurrence_idempotent:
  "uniqueify L = first_occurrences L \<and>
   distinct (uniqueify L) \<and>
   set (uniqueify L) = set L \<and>
   uniqueify (uniqueify L) = uniqueify L"
proof -
  have "uniqueify (uniqueify L) = uniqueify L"
    unfolding uniqueify_def
    by (rule uniqueify_seen_distinct_id) (simp_all add: distinct_uniqueify_seen)
  moreover have "uniqueify L = first_occurrences L"
    by (rule uniqueify_first_occurrences)
  moreover have "distinct (uniqueify L)"
    by (rule distinct_uniqueify)
  moreover have "set (uniqueify L) = set L"
    by (rule set_uniqueify)
  ultimately show ?thesis
    by blast
qed

theorem uniqueify_first_occurrence_idempotent_witness:
  "uniqueify ''abcab'' = ''abc'' \<and> first_occurrences ''abcab'' = ''abc'' \<and>
   uniqueify (uniqueify ''abcab'') = ''abc''"
proof -
  note t = uniqueify_first_occurrence_idempotent [of "''abcab''"]
  have u: "uniqueify ''abcab'' = ''abc''"
    by (simp add: uniqueify_def)
  have f: "first_occurrences ''abcab'' = uniqueify ''abcab''"
    using t by simp
  have i: "uniqueify (uniqueify ''abcab'') = uniqueify ''abcab''"
    using t by blast
  show ?thesis
    using f i u by simp
qed

section \<open>Properties of the shape resolver\<close>

lemma seq_index_errors: "seq_index xs i = Inl e \<Longrightarrow> e = IndexError"
  by (auto simp: seq_index_def split: if_splits)

lemma getitem_errors: "getitem v s = Inl e \<Longrightarrow> shape_errors e"
proof (cases s)
  case (K k)
  assume "getitem v s = Inl e"
  with K show ?thesis
    by (cases v) (auto simp: shape_errors_def split: option.splits)
next
  case (I i)
  assume "getitem v s = Inl e"
  with I show ?thesis
    by (cases v) (auto simp: shape_errors_def dest: seq_index_errors split: sum.splits)
qed

lemma lookup_errors: "lookup v path = Inl e \<Longrightarrow> shape_errors e"
proof (induction path arbitrary: v)
  case Nil
  then show ?case by simp
next
  case (Cons s path)
  then show ?case
    by (auto split: sum.splits dest: getitem_errors)
qed

lemma try_except_found:
  "try_except (found (lookup v path)) shape_errors handler =
     (case lookup v path of Inr w \<Rightarrow> Inr (Some w) | Inl e \<Rightarrow> handler)"
  by (auto simp: try_except_def found_def split: sum.splits dest: lookup_errors)

lemma resolve_entries_cases:
  "resolve_entries tab doc =
     Inr (case lookup doc (initial_shape tab) of
            Inr v \<Rightarrow> Some v
          | Inl e1 \<Rightarrow>
              (case lookup doc legacy_shape of
                 Inr v \<Rightarrow> Some v
               | Inl e2 \<Rightarrow>
                   (case lookup doc current_shape of Inr v \<Rightarrow> Some v | Inl e3 \<Rightarrow> None)))"
  unfolding resolve_entries_def try_except_found
  by (simp split: sum.splits)

section \<open>Properties of the extractors\<close>

lemma map_raise_Inr_iff: "map_raise f xs = Inr ys \<longleftrightarrow> map f xs = map Inr ys"
proof (induction xs arbitrary: ys)
  case Nil
  show ?case by auto
next
  case (Cons x xs)
  show ?case
  proof (cases "f x")
    case (Inl e)
    then show ?thesis by (cases ys) auto
  next
    case (Inr y)
    show ?thesis
    proof (cases "map_raise f xs")
      case (Inl e)
      with Inr Cons.IH show ?thesis by (cases ys) auto
    next
      case inr: (Inr zs)
      with Inr Cons.IH show ?thesis by (cases ys) auto
    qed
  qed
qed

lemma map_raise_Inl_iff: "isl (map_raise f xs) \<longleftrightarrow> (\<exists>x\<in>set xs. isl (f x))"
  by (induction xs) (auto split: sum.splits)

lemma references_and_token_Inr_iff:
  assumes "split_continuation videos0 = Inr (videos, continuation)"
    and "py_iter videos = Inr entries"
  shows "references_and_token item_ref videos0 = Inr (refs, token) \<longleftrightarrow>
     (\<exists>rs. map item_ref entries = map Inr rs \<and> refs = uniqueify rs \<and> token = continuation)"
proof -
  have "references_and_token item_ref videos0 =
      (case map_raise item_ref entries of
         Inl e \<Rightarrow> Inl e
       | Inr rs \<Rightarrow> Inr (uniqueify rs, continuation))"
    using assms by (simp add: references_and_token_def)
  then show ?thesis
    by (auto simp: map_raise_Inr_iff [symmetric] split: sum.splits)
qed

lemma references_and_token_Inl:
  assumes "split_continuation videos0 = Inr (videos, continuation)"
    and "py_iter videos = Inr entries"
  shows "isl (references_and_token item_ref videos0) \<longleftrightarrow> (\<exists>x\<in>set entries. isl (item_ref x))"
proof -
  have "isl (references_and_token item_ref videos0) \<longleftrightarrow> isl (map_raise item_ref entries)"
    using assms by (auto simp: references_and_token_def split: sum.splits)
  then show ?thesis
    by (simp add: map_raise_Inl_iff)
qed

lemma index_of_Some_iff:
  "index_of xs y = Some i \<longleftrightarrow> i < length xs \<and> xs ! i = y \<and> y \<notin> set (take i xs)"
proof (induction xs arbitrary: i)
  case Nil
  show ?case by simp
next
  case (Cons x xs)
  show ?case
  proof (cases "x = y")
    case True
    then show ?thesis by (cases i) auto
  next
    case False
    then show ?thesis using Cons.IH by (cases i) auto
  qed
qed

lemma index_of_distinct:
  assumes "distinct xs" and "i < length xs"
  shows "index_of xs (xs ! i) = Some i"
proof -
  have "xs ! i \<notin> set (take i xs)"
  proof
    assume "xs ! i \<in> set (take i xs)"
    then obtain j where j: "j < i" "take i xs ! j = xs ! i"
      using assms(2) by (auto simp: in_set_conv_nth)
    then have "xs ! j = xs ! i" by simp
    with assms j(1) show False
      by (simp add: nth_eq_iff_index_eq)
  qed
  with assms(2) show ?thesis by (simp add: index_of_Some_iff)
qed

lemma short_ref_prefix: "short_ref x = Inr r \<Longrightarrow> prefix (py ''/shorts/'') r"
  by (auto simp: short_ref_def split: sum.splits json.splits)

lemma video_ref_prefix: "video_ref fmt x = Inr r \<Longrightarrow> prefix (py ''/watch?v='') r"
  by (auto simp: video_ref_def split: sum.splits)

lemma map_raise_range:
  "map_raise f xs = Inr ys \<Longrightarrow> y \<in> set ys \<Longrightarrow> \<exists>x\<in>set xs. f x = Inr y"
proof (induction xs arbitrary: ys)
  case Nil
  then show ?case by simp
next
  case (Cons x xs)
  then show ?case
    by (auto split: sum.splits)
qed

lemma references_and_token_batch:
  assumes "references_and_token item_ref videos0 = Inr (refs, token)"
  shows "distinct refs \<and> (\<forall>r\<in>set refs. \<exists>x. item_ref x = Inr r)"
proof -
  from assms obtain entries rs where rs: "map_raise item_ref entries = Inr rs" "refs = uniqueify rs"
    by (auto simp: references_and_token_def split: sum.splits)
  show ?thesis
    using map_raise_range [OF rs(1)] by (auto simp: rs(2) distinct_uniqueify set_uniqueify)
qed

lemma shorts_of_page_batch:
  assumes "shorts_of_page doc = Inr (refs, token)"
  shows "short_batch refs"
proof (cases "resolve_entries 2 doc")
  case (Inl e)
  with assms show ?thesis by (simp add: shorts_of_page_def)
next
  case (Inr found)
  show ?thesis
  proof (cases found)
    case None
    with Inr assms show ?thesis by (auto simp: shorts_of_page_def short_batch_def)
  next
    case (Some videos0)
    with Inr assms have "references_and_token short_ref videos0 = Inr (refs, token)"
      by (simp add: shorts_of_page_def)
    from references_and_token_batch [OF this] show ?thesis
      by (auto simp: short_batch_def dest: short_ref_prefix)
  qed
qed

lemma extract_videos_batch:
  assumes "extract_videos C doc = Inr (refs, token)"
  shows "distinct refs \<and> (\<forall>r\<in>set refs. prefix (py ''/watch?v='') r)"
proof (cases "resolve_entries 1 doc")
  case (Inl e)
  with assms show ?thesis by (simp add: extract_videos_def)
next
  case (Inr found)
  show ?thesis
  proof (cases found)
    case None
    with Inr assms show ?thesis by (auto simp: extract_videos_def)
  next
    case (Some videos0)
    with Inr assms have "references_and_token (video_ref (format_value C)) videos0 = Inr (refs, token)"
      by (simp add: extract_videos_def)
    from references_and_token_batch [OF this] show ?thesis
      by (auto dest: video_ref_prefix)
  qed
qed

lemma returned_Inr:
  assumes "snd (extract_shorts C fs doc) = Inr res"
  shows "dump_error C doc = None" and "shorts_of_page doc = Inr res"
  using assms by (simp_all add: snd_extract_shorts split: option.splits)

lemma extract_shorts_batch:
  assumes "snd (extract_shorts C fs doc) = Inr (refs, token)"
  shows "short_batch refs"
  using returned_Inr(2) [OF assms] by (rule shorts_of_page_batch)


lemma short_batch_take: "short_batch refs \<Longrightarrow> short_batch (take i refs)"
  by (auto simp: short_batch_def dest: in_set_takeD)

lemma emitted_simps:
  "emitted (stop fs out) = []"
  "emitted (yield batch w) = batch # emitted w"
  "emitted (post r w) = emitted w"
  by (simp_all add: stop_def yield_def post_def)

lemma posted_simps:
  "posted (stop fs out) = []"
  "posted (yield batch w) = posted w"
  "posted (post r w) = r # posted w"
  by (simp_all add: stop_def yield_def post_def)

lemma outcome_simps:
  "outcome (stop fs out) = out"
  "outcome (yield batch w) = outcome w"
  "outcome (post r w) = outcome w"
  by (simp_all add: stop_def yield_def post_def)

lemma load_more_batches:
  "batch \<in> set (emitted (load_more C u next responses fs)) \<Longrightarrow> short_batch batch"
proof (induction responses arbitrary: "next" fs)
  case Nil
  then show ?case
    by (cases "next") (auto simp: emitted_simps split: if_splits)
next
  case (Cons req later)
  show ?case
  proof (cases "next")
    case None
    with Cons.prems show ?thesis by (simp add: emitted_simps)
  next
    case (Some r)
    show ?thesis
    proof (cases "request_truthy r")
      case False
      with Some Cons.prems show ?thesis by (simp add: emitted_simps)
    next
      case True
      show ?thesis
      proof (cases "snd (extract_shorts C fs req)")
        case (Inl e)
        with True Some Cons.prems show ?thesis
          by (simp add: emitted_simps)
      next
        case (Inr res)
        obtain refs token where res: "res = (refs, token)" by (cases res)
        have b: "short_batch refs"
          using Inr res by (auto intro: extract_shorts_batch)
        show ?thesis
        proof (cases "trim_index u (py ''/shorts/='') refs")
          case None
          with True Some Inr res Cons.prems b Cons.IH show ?thesis
            by (auto simp: emitted_simps)
        next
          case (Some i)
          with True \<open>next = Some r\<close> Inr res Cons.prems b show ?thesis
            by (auto simp: emitted_simps short_batch_take)
        qed
      qed
    qed
  qed
qed

lemma paginate_shorts_batches:
  assumes "batch \<in> set (emitted (paginate_shorts C u initial responses fs))"
  shows "short_batch batch"
proof (cases "snd (extract_shorts C fs initial)")
  case (Inl e)
  with assms show ?thesis
    by (simp add: paginate_shorts_def emitted_simps)
next
  case (Inr res)
  obtain refs token where res: "res = (refs, token)" by (cases res)
  have b: "short_batch refs"
    using Inr res by (auto intro: extract_shorts_batch)
  show ?thesis
  proof (cases "trim_index u (py ''/shorts/'') refs")
    case None
    with Inr res assms b show ?thesis
      by (auto simp: paginate_shorts_def emitted_simps dest: load_more_batches)
  next
    case (Some i)
    with Inr res assms b show ?thesis
      by (auto simp: paginate_shorts_def emitted_simps short_batch_take)
  qed
qed

section \<open>Properties of the walker\<close>

lemma trim_index_None [simp]: "trim_index None pre refs = None"
  by (simp add: trim_index_def)





lemma unresolved_page: "resolve_entries 2 page = Inr None \<Longrightarrow> shorts_of_page page = Inr ([], JNull)"
  by (simp add: shorts_of_page_def)

lemma trim_index_Nil [simp]: "trim_index u pre [] = None"
  by (simp add: trim_index_def split: option.splits)

lemma load_more_page_by_page:
  "k < length (emitted (load_more C None next responses fs)) \<Longrightarrow>
     k < length responses \<and>
     shorts_of_page (responses ! k) =
       Inr (emitted (load_more C None next responses fs) ! k, page_token (responses ! k))"
proof (induction responses arbitrary: "next" fs k)
  case Nil
  then show ?case
    by (cases "next") (auto simp: emitted_simps split: if_splits)
next
  case (Cons req later)
  show ?case
  proof (cases "next")
    case None
    with Cons.prems show ?thesis by (simp add: emitted_simps)
  next
    case (Some r)
    show ?thesis
    proof (cases "request_truthy r")
      case False
      with Some Cons.prems show ?thesis by (simp add: emitted_simps)
    next
      case True
      show ?thesis
      proof (cases "snd (extract_shorts C fs req)")
        case (Inl e)
        with True Some Cons.prems show ?thesis
          by (simp add: emitted_simps)
      next
        case (Inr res)
        obtain refs token where res: "res = (refs, token)" by (cases res)
        have sp: "shorts_of_page req = Inr (refs, token)"
          using returned_Inr(2) [OF Inr] res by simp
        have tok: "page_token req = token"
          using sp by (simp add: page_token_def)
        show ?thesis
        proof (cases k)
          case 0
          with True Some Inr res tok sp show ?thesis
            by (simp add: emitted_simps)
        next
          case (Suc j)
          with True Some Inr res Cons.prems Cons.IH [of j] show ?thesis
            by (simp add: emitted_simps)
        qed
      qed
    qed
  qed
qed

lemma paginate_shorts_page_by_page:
  assumes "k < length (emitted (paginate_shorts C None initial responses fs))"
  shows "k < Suc (length responses) \<and>
     shorts_of_page ((initial # responses) ! k) =
       Inr (emitted (paginate_shorts C None initial responses fs) ! k,
            page_token ((initial # responses) ! k))"
proof (cases "snd (extract_shorts C fs initial)")
  case (Inl e)
  with assms show ?thesis
    by (simp add: paginate_shorts_def emitted_simps)
next
  case (Inr res)
  obtain refs token where res: "res = (refs, token)" by (cases res)
  have sp: "shorts_of_page initial = Inr (refs, token)"
    using returned_Inr(2) [OF Inr] res by simp
  have tok: "page_token initial = token"
    using sp by (simp add: page_token_def)
  show ?thesis
  proof (cases k)
    case 0
    with Inr res tok sp show ?thesis
      by (simp add: paginate_shorts_def emitted_simps)
  next
    case (Suc j)
    with Inr res assms
      load_more_page_by_page [of j C "next_request C token" responses
        "fst (extract_shorts C fs initial)"]
    show ?thesis
      by (simp add: paginate_shorts_def emitted_simps)
  qed
qed

section \<open>The scenarios evaluated\<close>

lemma py_eq_iff: "py a = py b \<longleftrightarrow> a = b"
  by (simp add: py_def inj_map_eq_map inj_on_def)

lemma surrogate_in_py [simp]: "(\<exists>c\<in>set (py literal). surrogate c) = False"
  using plain_py [of literal] by (simp add: plain_def)

lemmas shape_eval =
  resolve_entries_cases initial_shape_def legacy_shape_def current_shape_def
  initial_page_def continuation_page_def seq_index_def py_eq_iff

lemmas entry_eval =
  references_and_token_def split_continuation_def try_except_def continuation_path_def
  continuation_errors_def seq_index_def short_ref_def video_ref_def py_format_def
  short_entry_def video_entry_def marker_def uniqueify_def py_def

lemmas dump_eval =
  dump_error_eq scenario_def initial_page_def continuation_page_def short_entry_def
  video_entry_def marker_def

lemma resolve_initial_page: "resolve_entries 2 (initial_page entries) = Inr (Some (JArr entries))"
  by (simp add: shape_eval)

lemma resolve_continuation_page: "resolve_entries tab (continuation_page entries) = Inr (Some (JArr entries))"
  by (simp add: shape_eval)

lemma first_page_result:
  "shorts_of_page first_page =
     Inr ([py ''/shorts/a'', py ''/shorts/b'', py ''/shorts/c''], JStr (py ''T1''))"
  by (simp add: shorts_of_page_def first_page_def resolve_initial_page entry_eval)

lemma second_page_result:
  "shorts_of_page second_page = Inr ([py ''/shorts/c'', py ''/shorts/d''], JNull)"
  by (simp add: shorts_of_page_def second_page_def resolve_continuation_page entry_eval)

lemma repeating_page_result:
  "shorts_of_page repeating_page = Inr ([py ''/shorts/c'', py ''/shorts/d''], JNull)"
  by (simp add: shorts_of_page_def repeating_page_def resolve_continuation_page entry_eval)

lemma chain_page1_result:
  "shorts_of_page chain_page1 = Inr ([py ''/shorts/a'', py ''/shorts/b''], JStr (py ''T1''))"
  by (simp add: shorts_of_page_def chain_page1_def resolve_initial_page entry_eval)

lemma chain_page2_result:
  "shorts_of_page chain_page2 =
     Inr ([py ''/shorts/c'', py ''/shorts/d'', py ''/shorts/e''], JStr (py ''T2''))"
  by (simp add: shorts_of_page_def chain_page2_def resolve_continuation_page entry_eval)

lemma chain_page3_result:
  "shorts_of_page chain_page3 = Inr ([py ''/shorts/f''], JNull)"
  by (simp add: shorts_of_page_def chain_page3_def resolve_continuation_page entry_eval)

lemma scenario_pages_dumped:
  "dump_error scenario first_page = None"
  "dump_error scenario second_page = None"
  "dump_error scenario repeating_page = None"
  "dump_error scenario chain_page1 = None"
  "dump_error scenario chain_page2 = None"
  "dump_error scenario chain_page3 = None"
  "dump_error scenario (JArr []) = None"
  by (simp_all add: dump_eval first_page_def second_page_def repeating_page_def
      chain_page1_def chain_page2_def chain_page3_def)

lemmas page_eval =
  snd_extract_shorts scenario_pages_dumped first_page_result second_page_result
  repeating_page_result chain_page1_result chain_page2_result chain_page3_result

lemma scenario_request: "request_truthy (build_continuation_url scenario token)"
  by (simp add: request_truthy_def scenario_def py_def)

lemma scenario_video_url: "video_url scenario watch_path = py ''https://www.youtube.com'' @ watch_path"
  by (simp add: scenario_def)

lemmas walk_eval =
  paginate_shorts_def page_eval trim_index_def next_request_def scenario_request
  emitted_simps posted_simps outcome_simps py_def

lemma scenario_walk:
  "emitted (paginate_shorts scenario None first_page [second_page] Map.empty) =
     [[py ''/shorts/a'', py ''/shorts/b'', py ''/shorts/c''], [py ''/shorts/c'', py ''/shorts/d'']]"
  by (simp add: walk_eval)

lemma repeating_walk:
  "emitted (paginate_shorts scenario None first_page [repeating_page] Map.empty) =
     [[py ''/shorts/a'', py ''/shorts/b'', py ''/shorts/c''], [py ''/shorts/c'', py ''/shorts/d'']]"
  by (simp add: walk_eval)

lemma surrogate_page_dump:
  "iterencode surrogate_page 0 = [91, 10, 32, 32, 32, 32, 34, 55296, 34, 10, 93]"
  "dump_error scenario surrogate_page = Some UnicodeEncodeError"
  by (simp_all add: surrogate_page_def dump_error_eq scenario_def surrogate_def py_def
      newline_indent_def encode_basestring_def escape_def)

section \<open>The claims about the extractors\<close>



text \<open>
  C3, as the code has it. The item mapper runs over every entry that the continuation
  statement leaves, and nothing catches what it raises. An extractor returns a batch
  exactly when the mapper returns for every entry, and the batch is then the
  deduplicated list of all their references; it raises exactly when the mapper raises
  on some entry. In \<^verbatim>\<open>_extract_shorts\<close> that holds of line 322 and what follows it;
  the call returns that batch exactly when the debug dump before them is written as
  well, and raises exactly when the dump or the mapper raises.
\<close>

theorem extract_returns_iff_every_entry_maps:
  assumes "split_continuation videos0 = Inr (videos, continuation)"
    and "py_iter videos = Inr entries"
  shows
   "(resolve_entries 1 doc = Inr (Some videos0) \<longrightarrow>
       (extract_videos C doc = Inr (refs, token) \<longleftrightarrow>
          (\<exists>rs. map (video_ref (format_value C)) entries = map Inr rs \<and>
                refs = uniqueify rs \<and> token = continuation)) \<and>
       (isl (extract_videos C doc) \<longleftrightarrow>
          (\<exists>x\<in>set entries. isl (video_ref (format_value C) x)))) \<and>
    (resolve_entries 2 doc = Inr (Some videos0) \<longrightarrow>
       (shorts_of_page doc = Inr (refs, token) \<longleftrightarrow>
          (\<exists>rs. map short_ref entries = map Inr rs \<and>
                refs = uniqueify rs \<and> token = continuation)) \<and>
       (isl (shorts_of_page doc) \<longleftrightarrow> (\<exists>x\<in>set entries. isl (short_ref x))) \<and>
       (snd (extract_shorts C fs doc) = Inr (refs, token) \<longleftrightarrow>
          dump_error C doc = None \<and>
          (\<exists>rs. map short_ref entries = map Inr rs \<and>
                refs = uniqueify rs \<and> token = continuation)) \<and>
       (isl (snd (extract_shorts C fs doc)) \<longleftrightarrow>
          dump_error C doc \<noteq> None \<or> (\<exists>x\<in>set entries. isl (short_ref x))))"
proof (intro conjI impI)
  assume r: "resolve_entries 1 doc = Inr (Some videos0)"
  then have e: "extract_videos C doc = references_and_token (video_ref (format_value C)) videos0"
    by (simp add: extract_videos_def)
  show "extract_videos C doc = Inr (refs, token) \<longleftrightarrow>
          (\<exists>rs. map (video_ref (format_value C)) entries = map Inr rs \<and>
                refs = uniqueify rs \<and> token = continuation)"
    unfolding e by (rule references_and_token_Inr_iff [OF assms])
  show "isl (extract_videos C doc) \<longleftrightarrow>
          (\<exists>x\<in>set entries. isl (video_ref (format_value C) x))"
    unfolding e by (rule references_and_token_Inl [OF assms])
next
  assume r: "resolve_entries 2 doc = Inr (Some videos0)"
  then have e: "shorts_of_page doc = references_and_token short_ref videos0"
    by (simp add: shorts_of_page_def)
  show a: "shorts_of_page doc = Inr (refs, token) \<longleftrightarrow>
          (\<exists>rs. map short_ref entries = map Inr rs \<and>
                refs = uniqueify rs \<and> token = continuation)"
    unfolding e by (rule references_and_token_Inr_iff [OF assms])
  show b: "isl (shorts_of_page doc) \<longleftrightarrow> (\<exists>x\<in>set entries. isl (short_ref x))"
    unfolding e by (rule references_and_token_Inl [OF assms])
  show "snd (extract_shorts C fs doc) = Inr (refs, token) \<longleftrightarrow>
          dump_error C doc = None \<and>
          (\<exists>rs. map short_ref entries = map Inr rs \<and>
                refs = uniqueify rs \<and> token = continuation)"
    unfolding a [symmetric] by (simp add: snd_extract_shorts split: option.splits)
  show "isl (snd (extract_shorts C fs doc)) \<longleftrightarrow>
          dump_error C doc \<noteq> None \<or> (\<exists>x\<in>set entries. isl (short_ref x))"
    unfolding b [symmetric] by (simp add: snd_extract_shorts split: option.splits)
qed

theorem extract_returns_iff_every_entry_maps_witness:
  "split_continuation (JArr [video_entry ''a'', video_entry ''a'']) =
     Inr (JArr [video_entry ''a'', video_entry ''a''], JNull) \<and>
   extract_videos scenario (continuation_page [video_entry ''a'', video_entry ''a'']) =
     Inr ([py ''/watch?v=a''], JNull) \<and>
   split_continuation (JArr [JObj [], short_entry ''a'']) =
     Inr (JArr [JObj [], short_entry ''a''], JNull) \<and>
   short_ref (JObj []) = Inl KeyError \<and>
   isl (snd (extract_shorts scenario Map.empty (continuation_page [JObj [], short_entry ''a'']))) \<and>
   dump_error scenario repeating_page = None \<and>
   snd (extract_shorts scenario Map.empty repeating_page) =
     Inr ([py ''/shorts/c'', py ''/shorts/d''], JNull)"
proof -
  let ?vs = "[video_entry ''a'', video_entry ''a'']"
  let ?ss = "[JObj [], short_entry ''a'']"
  let ?rs = "[short_entry ''c'', short_entry ''d'', short_entry ''c'']"
  have sv: "split_continuation (JArr ?vs) = Inr (JArr ?vs, JNull)"
    by (simp add: entry_eval)
  have ss: "split_continuation (JArr ?ss) = Inr (JArr ?ss, JNull)"
    by (simp add: entry_eval)
  have sr: "split_continuation (JArr ?rs) = Inr (JArr ?rs, JNull)"
    by (simp add: entry_eval)
  have it: "py_iter (JArr ?vs) = Inr ?vs" "py_iter (JArr ?ss) = Inr ?ss" "py_iter (JArr ?rs) = Inr ?rs"
    by simp_all
  have bad: "short_ref (JObj []) = Inl KeyError"
    by (simp add: short_ref_def)
  have m: "map (video_ref (format_value scenario)) ?vs = map Inr [py ''/watch?v=a'', py ''/watch?v=a'']"
    by (simp add: entry_eval)
  have u: "[py ''/watch?v=a''] = uniqueify [py ''/watch?v=a'', py ''/watch?v=a'']"
    by (simp add: uniqueify_def)
  have mr: "map short_ref ?rs = map Inr [py ''/shorts/c'', py ''/shorts/d'', py ''/shorts/c'']"
    by (simp add: entry_eval)
  have ur: "[py ''/shorts/c'', py ''/shorts/d''] =
      uniqueify [py ''/shorts/c'', py ''/shorts/d'', py ''/shorts/c'']"
    by (simp add: uniqueify_def py_eq_iff)
  note v = extract_returns_iff_every_entry_maps [OF sv it(1),
      of "continuation_page ?vs" scenario "[py ''/watch?v=a'']" JNull Map.empty]
  note s = extract_returns_iff_every_entry_maps [OF ss it(2),
      of "continuation_page ?ss" scenario "[]" JNull Map.empty]
  note r = extract_returns_iff_every_entry_maps [OF sr it(3),
      of repeating_page scenario "[py ''/shorts/c'', py ''/shorts/d'']" JNull Map.empty]
  have "extract_videos scenario (continuation_page ?vs) = Inr ([py ''/watch?v=a''], JNull)"
    using v m u by (simp only: resolve_continuation_page) blast
  moreover have "isl (snd (extract_shorts scenario Map.empty (continuation_page ?ss)))"
    using s bad by (simp only: resolve_continuation_page) auto
  moreover have "snd (extract_shorts scenario Map.empty repeating_page) =
      Inr ([py ''/shorts/c'', py ''/shorts/d''], JNull)"
    using r mr ur scenario_pages_dumped(3)
    by (simp only: repeating_page_def resolve_continuation_page) blast
  ultimately show ?thesis
    using sv ss bad scenario_pages_dumped(3) by simp
qed

text \<open>
  C3, as the claim states it, fails: a page with one malformed and one well-formed
  entry raises \<^verbatim>\<open>KeyError\<close> in both extractors.
\<close>

theorem malformed_entry_aborts_page:
  "extract_videos scenario (continuation_page [JObj [], video_entry ''a'']) = Inl KeyError \<and>
   snd (extract_shorts scenario Map.empty (continuation_page [JObj [], short_entry ''a''])) =
     Inl KeyError"
proof -
  have "dump_error scenario (continuation_page [JObj [], short_entry ''a'']) = None"
    by (simp add: dump_eval)
  then show ?thesis
    by (simp add: extract_videos_def snd_extract_shorts shorts_of_page_def
        resolve_continuation_page entry_eval)
qed

text \<open>
  C4 at a trailing entry that is not a dict (here \<^verbatim>\<open>null\<close>): the subscript raises
  \<^verbatim>\<open>TypeError\<close>, which the handler of lines 190 and 351 does not list, so the
  continuation statement and both extractors raise.
\<close>

theorem trailing_entry_type_error:
  "split_continuation (JArr [short_entry ''a'', JNull]) = Inl TypeError \<and>
   snd (extract_shorts scenario Map.empty (continuation_page [short_entry ''a'', JNull])) =
     Inl TypeError \<and>
   extract_videos scenario (continuation_page [video_entry ''a'', JNull]) = Inl TypeError"
proof -
  have "dump_error scenario (continuation_page [short_entry ''a'', JNull]) = None"
    by (simp add: dump_eval)
  then show ?thesis
    by (simp add: extract_videos_def snd_extract_shorts shorts_of_page_def
        resolve_continuation_page entry_eval)
qed

section \<open>The claims about the batches of a walk\<close>

text \<open>
  C9. Every batch that the shorts walker emits has no reference twice and holds only
  references that begin with \<^verbatim>\<open>/shorts/\<close>, whatever the boundary, the pages and the
  collaborators are; the same holds for every batch that \<^verbatim>\<open>_extract_shorts\<close>
  returns, and for \<^verbatim>\<open>_extract_videos\<close> with \<^verbatim>\<open>/watch?v=\<close>.
\<close>

theorem every_batch_distinct_and_prefixed:
  "(\<forall>batch\<in>set (emitted (paginate_shorts C until_watch_id initial responses fs)).
      distinct batch \<and> (\<forall>r\<in>set batch. prefix (py ''/shorts/'') r)) \<and>
   (snd (extract_shorts C fs doc) = Inr (refs, token) \<longrightarrow>
      distinct refs \<and> (\<forall>r\<in>set refs. prefix (py ''/shorts/'') r)) \<and>
   (extract_videos C doc = Inr (refs, token) \<longrightarrow>
      distinct refs \<and> (\<forall>r\<in>set refs. prefix (py ''/watch?v='') r))"
proof (intro conjI ballI impI)
  fix batch
  assume "batch \<in> set (emitted (paginate_shorts C until_watch_id initial responses fs))"
  then have b: "short_batch batch"
    by (rule paginate_shorts_batches)
  then show "distinct batch"
    by (simp add: short_batch_def)
  fix r
  assume "r \<in> set batch"
  with b show "prefix (py ''/shorts/'') r"
    by (simp add: short_batch_def)
next
  assume "snd (extract_shorts C fs doc) = Inr (refs, token)"
  then have b: "short_batch refs"
    by (rule extract_shorts_batch)
  then show "distinct refs"
    by (simp add: short_batch_def)
  fix r
  assume "r \<in> set refs"
  with b show "prefix (py ''/shorts/'') r"
    by (simp add: short_batch_def)
next
  assume e: "extract_videos C doc = Inr (refs, token)"
  then show "distinct refs"
    using extract_videos_batch by blast
  fix r
  assume "r \<in> set refs"
  with e show "prefix (py ''/watch?v='') r"
    using extract_videos_batch by blast
qed

theorem every_batch_distinct_and_prefixed_witness:
  "emitted (paginate_shorts scenario None first_page [second_page] Map.empty) =
     [[py ''/shorts/a'', py ''/shorts/b'', py ''/shorts/c''], [py ''/shorts/c'', py ''/shorts/d'']] \<and>
   distinct [py ''/shorts/c'', py ''/shorts/d''] \<and>
   prefix (py ''/shorts/'') (py ''/shorts/d'') \<and>
   snd (extract_shorts scenario Map.empty first_page) =
     Inr ([py ''/shorts/a'', py ''/shorts/b'', py ''/shorts/c''], JStr (py ''T1'')) \<and>
   distinct [py ''/shorts/a'', py ''/shorts/b'', py ''/shorts/c''] \<and>
   extract_videos scenario (continuation_page [video_entry ''a'', video_entry ''a'']) =
     Inr ([py ''/watch?v=a''], JNull) \<and>
   prefix (py ''/watch?v='') (py ''/watch?v=a'')"
proof -
  note v = every_batch_distinct_and_prefixed [of scenario None first_page "[second_page]"
      Map.empty "continuation_page [video_entry ''a'', video_entry ''a'']" "[py ''/watch?v=a'']" JNull]
  note s = every_batch_distinct_and_prefixed [of scenario None first_page "[second_page]"
      Map.empty first_page "[py ''/shorts/a'', py ''/shorts/b'', py ''/shorts/c'']" "JStr (py ''T1'')"]
  have ev: "extract_videos scenario (continuation_page [video_entry ''a'', video_entry ''a'']) =
      Inr ([py ''/watch?v=a''], JNull)"
    by (simp add: extract_videos_def resolve_continuation_page entry_eval)
  have es: "snd (extract_shorts scenario Map.empty first_page) =
      Inr ([py ''/shorts/a'', py ''/shorts/b'', py ''/shorts/c''], JStr (py ''T1''))"
    by (simp add: page_eval)
  have "distinct [py ''/shorts/a'', py ''/shorts/b'', py ''/shorts/c'']"
    using s es by blast
  moreover have "distinct [py ''/shorts/c'', py ''/shorts/d''] \<and>
      prefix (py ''/shorts/'') (py ''/shorts/d'')"
    using v by (simp add: scenario_walk)
  moreover have "prefix (py ''/watch?v='') (py ''/watch?v=a'')"
    using v ev by simp
  ultimately show ?thesis
    using ev es by (simp add: scenario_walk)
qed

text \<open>
  C1, as the code has it. Deduplication is a step of the extractor, so it applies
  within one page: the k-th batch of a walk is what \<^verbatim>\<open>_extract_shorts\<close> returns for
  the k-th page. That batch holds the references of the page's entries in the order
  of the entries, each at its first occurrence within the page and at none of its
  later ones, so no reference is twice in it; it is empty for a page that no shape
  resolves. \<^verbatim>\<open>shorts_url_generator\<close> yields the batches one after the other, every
  reference of every batch.
\<close>

theorem deduplication_within_each_page:
  "(\<forall>k<length (emitted (paginate_shorts C None initial responses fs)).
      k < Suc (length responses) \<and>
      shorts_of_page ((initial # responses) ! k) =
        Inr (emitted (paginate_shorts C None initial responses fs) ! k,
             page_token ((initial # responses) ! k)) \<and>
      distinct (emitted (paginate_shorts C None initial responses fs) ! k) \<and>
      (resolve_entries 2 ((initial # responses) ! k) = Inr None \<longrightarrow>
         emitted (paginate_shorts C None initial responses fs) ! k = []) \<and>
      (\<forall>videos0 videos continuation entries.
         resolve_entries 2 ((initial # responses) ! k) = Inr (Some videos0) \<and>
         split_continuation videos0 = Inr (videos, continuation) \<and>
         py_iter videos = Inr entries \<longrightarrow>
         (\<exists>rs. map short_ref entries = map Inr rs \<and>
               emitted (paginate_shorts C None initial responses fs) ! k = first_occurrences rs))) \<and>
   shorts_url_generator C initial responses fs =
     map (video_url C) (concat (emitted (paginate_shorts C None initial responses fs)))"
proof (intro conjI allI impI)
  fix k
  assume k: "k < length (emitted (paginate_shorts C None initial responses fs))"
  from paginate_shorts_page_by_page [OF k]
  show "k < Suc (length responses)"
    and p: "shorts_of_page ((initial # responses) ! k) =
        Inr (emitted (paginate_shorts C None initial responses fs) ! k,
             page_token ((initial # responses) ! k))"
    by simp_all
  from shorts_of_page_batch [OF p]
  show "distinct (emitted (paginate_shorts C None initial responses fs) ! k)"
    by (simp add: short_batch_def)
  {
    assume "resolve_entries 2 ((initial # responses) ! k) = Inr None"
    then have "shorts_of_page ((initial # responses) ! k) = Inr ([], JNull)"
      by (rule unresolved_page)
    with p show "emitted (paginate_shorts C None initial responses fs) ! k = []"
      by simp
  }
  {
    fix videos0 videos continuation entries
    assume a: "resolve_entries 2 ((initial # responses) ! k) = Inr (Some videos0) \<and>
         split_continuation videos0 = Inr (videos, continuation) \<and>
         py_iter videos = Inr entries"
    then have "references_and_token short_ref videos0 =
        Inr (emitted (paginate_shorts C None initial responses fs) ! k,
             page_token ((initial # responses) ! k))"
      using p by (simp add: shorts_of_page_def)
    with a obtain rs where "map short_ref entries = map Inr rs"
      and "emitted (paginate_shorts C None initial responses fs) ! k = uniqueify rs"
      using references_and_token_Inr_iff [of videos0 videos continuation entries short_ref]
      by blast
    then show "\<exists>rs. map short_ref entries = map Inr rs \<and>
        emitted (paginate_shorts C None initial responses fs) ! k = first_occurrences rs"
      by (auto simp: uniqueify_first_occurrences)
  }
next
  show "shorts_url_generator C initial responses fs =
     map (video_url C) (concat (emitted (paginate_shorts C None initial responses fs)))"
    by (simp add: shorts_url_generator_def)
qed

theorem deduplication_within_each_page_witness:
  "emitted (paginate_shorts scenario None first_page [repeating_page] Map.empty) =
     [[py ''/shorts/a'', py ''/shorts/b'', py ''/shorts/c''], [py ''/shorts/c'', py ''/shorts/d'']] \<and>
   shorts_of_page repeating_page = Inr ([py ''/shorts/c'', py ''/shorts/d''], page_token repeating_page) \<and>
   map short_ref [short_entry ''c'', short_entry ''d'', short_entry ''c''] =
     map Inr [py ''/shorts/c'', py ''/shorts/d'', py ''/shorts/c''] \<and>
   first_occurrences [py ''/shorts/c'', py ''/shorts/d'', py ''/shorts/c''] =
     [py ''/shorts/c'', py ''/shorts/d''] \<and>
   shorts_url_generator scenario first_page [repeating_page] Map.empty =
     [py ''https://www.youtube.com/shorts/a'', py ''https://www.youtube.com/shorts/b'',
      py ''https://www.youtube.com/shorts/c'', py ''https://www.youtube.com/shorts/c'',
      py ''https://www.youtube.com/shorts/d'']"
proof -
  let ?es = "[short_entry ''c'', short_entry ''d'', short_entry ''c'']"
  let ?W = "paginate_shorts scenario None first_page [repeating_page] Map.empty"
  note t = deduplication_within_each_page [of scenario first_page "[repeating_page]" Map.empty]
  have len: "1 < length (emitted ?W)"
    by (simp add: repeating_walk)
  have r: "resolve_entries 2 ((first_page # [repeating_page]) ! 1) = Inr (Some (JArr ?es))"
    by (simp add: repeating_page_def resolve_continuation_page)
  have sc: "split_continuation (JArr ?es) = Inr (JArr ?es, JNull)"
    by (simp add: entry_eval)
  have m: "map short_ref ?es = map Inr [py ''/shorts/c'', py ''/shorts/d'', py ''/shorts/c'']"
    by (simp add: entry_eval)
  from t len have p: "shorts_of_page ((first_page # [repeating_page]) ! 1) =
      Inr (emitted ?W ! 1, page_token ((first_page # [repeating_page]) ! 1))"
    by blast
  from t len r sc obtain rs where rs: "map short_ref ?es = map Inr rs"
    and f: "emitted ?W ! 1 = first_occurrences rs"
    by (metis py_iter.simps(1))
  from rs m have "map Inr rs =
      (map Inr [py ''/shorts/c'', py ''/shorts/d'', py ''/shorts/c''] :: (py_error + pystr) list)"
    by simp
  then have "rs = [py ''/shorts/c'', py ''/shorts/d'', py ''/shorts/c'']"
    by (rule map_injective) (simp add: inj_on_def)
  with f have fo: "first_occurrences [py ''/shorts/c'', py ''/shorts/d'', py ''/shorts/c''] =
      [py ''/shorts/c'', py ''/shorts/d'']"
    by (simp add: repeating_walk)
  from t have "shorts_url_generator scenario first_page [repeating_page] Map.empty =
      map (video_url scenario) (concat (emitted ?W))"
    by blast
  then have g: "shorts_url_generator scenario first_page [repeating_page] Map.empty =
     [py ''https://www.youtube.com/shorts/a'', py ''https://www.youtube.com/shorts/b'',
      py ''https://www.youtube.com/shorts/c'', py ''https://www.youtube.com/shorts/c'',
      py ''https://www.youtube.com/shorts/d'']"
    by (simp add: repeating_walk scenario_video_url py_def)
  from p have "shorts_of_page repeating_page =
      Inr ([py ''/shorts/c'', py ''/shorts/d''], page_token repeating_page)"
    by (simp add: repeating_walk)
  with m fo g show ?thesis
    by (simp add: repeating_walk)
qed

text \<open>
  C1, as the claim states it, fails on the spec's own scenario: the second page holds
  c again, and the flattened sequence holds it twice.
\<close>

theorem flattened_sequence_repeats_reference:
  "\<not> distinct (concat (emitted (paginate_shorts scenario None first_page [second_page] Map.empty))) \<and>
   \<not> distinct (shorts_url_generator scenario first_page [second_page] Map.empty)"
  by (simp add: shorts_url_generator_def scenario_walk)

text \<open>
  C2 on the chain of three pages with the boundary d, whose path is in the second
  page: line 270 looks for \<^verbatim>\<open>/shorts/=d\<close>, finds nothing, and the walker emits all of
  the second page, posts the second request and emits the third page.
\<close>

theorem boundary_on_second_page_missed:
  "page_batch chain_page2 = [py ''/shorts/c'', py ''/shorts/d'', py ''/shorts/e''] \<and>
   emitted (paginate_shorts scenario (Some (py ''d'')) chain_page1 [chain_page2, chain_page3] Map.empty) =
     [[py ''/shorts/a'', py ''/shorts/b''], [py ''/shorts/c'', py ''/shorts/d'', py ''/shorts/e''],
      [py ''/shorts/f'']] \<and>
   length (posted (paginate_shorts scenario (Some (py ''d'')) chain_page1 [chain_page2, chain_page3] Map.empty)) = 2 \<and>
   outcome (paginate_shorts scenario (Some (py ''d'')) chain_page1 [chain_page2, chain_page3] Map.empty) = Finished"
  by (simp add: page_batch_def walk_eval)

section \<open>The claims about the course of a walk\<close>



text \<open>
  C7. When the caller passes a watch id (a string that is not empty) and the first page
  holds its path \<^verbatim>\<open>/shorts/<id>\<close> at index \<open>i\<close>, the walker emits one batch, the
  first page's references before index \<open>i\<close>, posts no request and returns.
\<close>

theorem boundary_on_first_page:
  assumes "snd (extract_shorts C fs initial) = Inr (videos_urls, continuation)"
    and "w \<noteq> []" and "i < length videos_urls" and "videos_urls ! i = py ''/shorts/'' @ w"
  shows "emitted (paginate_shorts C (Some w) initial responses fs) = [take i videos_urls] \<and>
         posted (paginate_shorts C (Some w) initial responses fs) = [] \<and>
         outcome (paginate_shorts C (Some w) initial responses fs) = Finished"
proof -
  have "distinct videos_urls"
    using extract_shorts_batch [OF assms(1)] by (simp add: short_batch_def)
  then have "index_of videos_urls (py ''/shorts/'' @ w) = Some i"
    using index_of_distinct [of videos_urls i] assms(3,4) by simp
  then have "trim_index (Some w) (py ''/shorts/'') videos_urls = Some i"
    using assms(2) by (simp add: trim_index_def)
  with assms(1) show ?thesis
    by (simp add: paginate_shorts_def emitted_simps posted_simps outcome_simps)
qed

theorem boundary_on_first_page_witness:
  "snd (extract_shorts scenario Map.empty first_page) =
     Inr ([py ''/shorts/a'', py ''/shorts/b'', py ''/shorts/c''], JStr (py ''T1'')) \<and>
   emitted (paginate_shorts scenario (Some (py ''b'')) first_page [second_page] Map.empty) =
     [[py ''/shorts/a'']] \<and>
   posted (paginate_shorts scenario (Some (py ''b'')) first_page [second_page] Map.empty) = [] \<and>
   outcome (paginate_shorts scenario (Some (py ''b'')) first_page [second_page] Map.empty) = Finished"
proof -
  have e: "snd (extract_shorts scenario Map.empty first_page) =
     Inr ([py ''/shorts/a'', py ''/shorts/b'', py ''/shorts/c''], JStr (py ''T1''))"
    by (simp add: page_eval)
  have "emitted (paginate_shorts scenario (Some (py ''b'')) first_page [second_page] Map.empty) =
      [take 1 [py ''/shorts/a'', py ''/shorts/b'', py ''/shorts/c'']] \<and>
    posted (paginate_shorts scenario (Some (py ''b'')) first_page [second_page] Map.empty) = [] \<and>
    outcome (paginate_shorts scenario (Some (py ''b'')) first_page [second_page] Map.empty) = Finished"
    by (rule boundary_on_first_page [OF e]) (simp_all add: py_def)
  with e show ?thesis
    by simp
qed

section \<open>The claim about the debug dump\<close>

lemma files_after_simps:
  "files_after (stop fs out) = fs"
  "files_after (yield batch w) = files_after w"
  "files_after (post r w) = files_after w"
  by (simp_all add: stop_def yield_def post_def)

lemma extract_shorts_leaves_file:
  "fst (extract_shorts C fs doc) (py ''shorts_initial_data.json'') \<noteq> None"
  by (simp add: fst_extract_shorts write_file_def)

lemma load_more_leaves_file:
  "fs (py ''shorts_initial_data.json'') \<noteq> None \<Longrightarrow>
   files_after (load_more C u next responses fs) (py ''shorts_initial_data.json'') \<noteq> None"
proof (induction responses arbitrary: "next" fs)
  case Nil
  then show ?case
    by (cases "next") (simp_all add: files_after_simps)
next
  case (Cons req later)
  note f = extract_shorts_leaves_file [of C fs req]
  show ?case
  proof (cases "next")
    case None
    with Cons.prems show ?thesis by (simp add: files_after_simps)
  next
    case (Some r)
    show ?thesis
    proof (cases "snd (extract_shorts C fs req)")
      case (Inl e)
      with Some Cons.prems f show ?thesis
        by (simp add: files_after_simps)
    next
      case (Inr res)
      obtain refs token where res: "res = (refs, token)" by (cases res)
      from Cons.IH [of "fst (extract_shorts C fs req)", OF f] Some Inr res Cons.prems f show ?thesis
        by (simp add: files_after_simps split: option.splits)
    qed
  qed
qed

lemma paginate_shorts_leaves_file:
  "files_after (paginate_shorts C u initial responses fs) (py ''shorts_initial_data.json'') \<noteq> None"
proof (cases "snd (extract_shorts C fs initial)")
  case (Inl e)
  then show ?thesis
    using extract_shorts_leaves_file [of C fs initial]
    by (simp add: paginate_shorts_def files_after_simps)
next
  case (Inr res)
  obtain refs token where res: "res = (refs, token)" by (cases res)
  from load_more_leaves_file [of "fst (extract_shorts C fs initial)",
      OF extract_shorts_leaves_file [of C fs initial]] Inr res
    extract_shorts_leaves_file [of C fs initial]
  show ?thesis
    by (simp add: paginate_shorts_def files_after_simps split: option.splits)
qed

text \<open>
  C10, as the code has it. Every call of \<^verbatim>\<open>_extract_shorts\<close> opens
  \<^verbatim>\<open>shorts_initial_data.json\<close> for writing before any shape is tried and leaves every
  other file as it was, so no call and no walk is free of an effect on the files. The
  call writes the dump of the whole parsed document there when the document is nested
  no deeper than the encoder goes and none of its strings and keys holds a surrogate,
  and then goes on to the shapes, whatever they and the mapper do. Otherwise
  \<^verbatim>\<open>dumps\<close> raises \<^verbatim>\<open>RecursionError\<close> or \<^verbatim>\<open>f.write\<close> raises \<^verbatim>\<open>UnicodeEncodeError\<close>,
  the file is left empty, and the call raises before any shape is tried.
\<close>

theorem debug_dump_of_every_call:
  "fst (extract_shorts C fs doc) =
     fs(py ''shorts_initial_data.json'' \<mapsto>
        (case dump_error C doc of None \<Rightarrow> iterencode doc 0 | Some e \<Rightarrow> [])) \<and>
   snd (extract_shorts C fs doc) =
     (case dump_error C doc of None \<Rightarrow> shorts_of_page doc | Some e \<Rightarrow> Inl e) \<and>
   dump_error C doc =
     (if dump_depth C < depth doc then Some RecursionError
      else if holds_surrogate doc then Some UnicodeEncodeError
      else None) \<and>
   files_after (paginate_shorts C until_watch_id initial responses fs)
     (py ''shorts_initial_data.json'') \<noteq> None"
proof (intro conjI)
  show "fst (extract_shorts C fs doc) =
     fs(py ''shorts_initial_data.json'' \<mapsto>
        (case dump_error C doc of None \<Rightarrow> iterencode doc 0 | Some e \<Rightarrow> []))"
    by (simp add: fst_extract_shorts write_file_def split: option.splits)
  show "snd (extract_shorts C fs doc) =
     (case dump_error C doc of None \<Rightarrow> shorts_of_page doc | Some e \<Rightarrow> Inl e)"
    by (simp add: snd_extract_shorts split: option.splits)
  show "dump_error C doc =
     (if dump_depth C < depth doc then Some RecursionError
      else if holds_surrogate doc then Some UnicodeEncodeError
      else None)"
    by (rule dump_error_eq)
  show "files_after (paginate_shorts C until_watch_id initial responses fs)
     (py ''shorts_initial_data.json'') \<noteq> None"
    by (rule paginate_shorts_leaves_file)
qed

theorem debug_dump_of_every_call_witness:
  "snd (extract_shorts scenario Map.empty (JArr [])) = Inr ([], JNull) \<and>
   fst (extract_shorts scenario Map.empty (JArr [])) (py ''shorts_initial_data.json'') =
     Some (py ''[]'') \<and>
   shorts_of_page (continuation_page [JObj []]) = Inl KeyError \<and>
   snd (extract_shorts scenario Map.empty (continuation_page [JObj []])) = Inl KeyError \<and>
   fst (extract_shorts scenario Map.empty (continuation_page [JObj []]))
     (py ''shorts_initial_data.json'') = Some (iterencode (continuation_page [JObj []]) 0) \<and>
   depth (JArr [JArr []]) = 2 \<and>
   dump_error (scenario\<lparr>dump_depth := 1\<rparr>) (JArr [JArr []]) = Some RecursionError \<and>
   fst (extract_shorts (scenario\<lparr>dump_depth := 1\<rparr>) Map.empty (JArr [JArr []]))
     (py ''shorts_initial_data.json'') = Some []"
proof -
  note e = debug_dump_of_every_call [of scenario Map.empty "JArr []" None "JArr []" "[]"]
  note m = debug_dump_of_every_call [of scenario Map.empty "continuation_page [JObj []]" None "JArr []" "[]"]
  note d = debug_dump_of_every_call [of "scenario\<lparr>dump_depth := 1\<rparr>" Map.empty "JArr [JArr []]"
      None "JArr []" "[]"]
  have p: "shorts_of_page (JArr []) = Inr ([], JNull)"
    by (simp add: shorts_of_page_def shape_eval)
  have k: "shorts_of_page (continuation_page [JObj []]) = Inl KeyError"
    by (simp add: shorts_of_page_def resolve_continuation_page entry_eval)
  have o: "dump_error scenario (continuation_page [JObj []]) = None"
    by (simp add: dump_eval)
  have dp: "depth (JArr [JArr []]) = 2"
    by simp
  have de: "dump_error (scenario\<lparr>dump_depth := 1\<rparr>) (JArr [JArr []]) = Some RecursionError"
    using d dp by simp
  have "snd (extract_shorts scenario Map.empty (JArr [])) = Inr ([], JNull)"
    and "fst (extract_shorts scenario Map.empty (JArr [])) (py ''shorts_initial_data.json'') =
      Some (py ''[]'')"
    using e p by (simp_all add: scenario_pages_dumped)
  moreover have "snd (extract_shorts scenario Map.empty (continuation_page [JObj []])) = Inl KeyError"
    and "fst (extract_shorts scenario Map.empty (continuation_page [JObj []]))
      (py ''shorts_initial_data.json'') = Some (iterencode (continuation_page [JObj []]) 0)"
    using m k o by simp_all
  moreover have "fst (extract_shorts (scenario\<lparr>dump_depth := 1\<rparr>) Map.empty (JArr [JArr []]))
      (py ''shorts_initial_data.json'') = Some []"
    using d de by simp
  ultimately show ?thesis
    using k dp de by blast
qed

text \<open>
  C10, as the claim states it, fails on the document that \<^verbatim>\<open>json.loads\<close> returns for
  \<^verbatim>\<open>["\ud800"]\<close>: the dump holds the surrogate, \<^verbatim>\<open>f.write\<close> raises
  \<^verbatim>\<open>UnicodeEncodeError\<close>, and the call leaves the file empty.
\<close>

theorem surrogate_document_not_written:
  "iterencode surrogate_page 0 = [91, 10, 32, 32, 32, 32, 34, 55296, 34, 10, 93] \<and>
   snd (extract_shorts scenario Map.empty surrogate_page) = Inl UnicodeEncodeError \<and>
   fst (extract_shorts scenario Map.empty surrogate_page) (py ''shorts_initial_data.json'') =
     Some []"
  by (simp add: surrogate_page_dump snd_extract_shorts fst_extract_shorts write_file_def)

end
